theory Spec2Isabelle
  imports Main "HOL-Library.AList" "HOL-Library.Multiset"
begin

section \<open>The a-tisket image information cache (dimensions.ts)\<close>

subsection \<open>Data model\<close>

text \<open>
  \<^verbatim>\<open>Dimensions\<close> and \<^verbatim>\<open>FileInfo\<close> are imported types; their fields are the ones the
  source reads and writes. Optional properties (\<^verbatim>\<open>field?: T\<close>) are options: a property
  holding \<^verbatim>\<open>undefined\<close> is dropped by \<^verbatim>\<open>JSON.stringify\<close>, so absent and undefined coincide
  in the persisted store. The \<^verbatim>\<open>size\<close> field is called \<open>size_fi\<close> here.
\<close>

record Dimensions =
  width :: nat
  height :: nat

record FileInfo =
  fileType :: "string option"
  size_fi :: "nat option"

record CacheEntry =
  dimensions :: "Dimensions option"
  fileInfo :: "FileInfo option"
  addedDatetime :: int

text \<open>
  The argument of \<^verbatim>\<open>putInfo\<close> has type \<^verbatim>\<open>Omit<CacheEntry, 'addedDatetime'>\<close>: the two
  payload fields only.
\<close>

record PartialEntry =
  p_dimensions :: "Dimensions option"
  p_fileInfo :: "FileInfo option"

text \<open>
  \<^verbatim>\<open>CacheStore = Record<string, CacheEntry>\<close>. A JavaScript object enumerates its string
  keys in creation order, and \<^verbatim>\<open>Object.entries\<close> followed by a stable sort depends on
  that order when timestamps are equal, so the store is an association list in
  enumeration order. A store read from JSON has no key twice (\<open>wf_store\<close>). Keys are
  image URLs; keys that look like array indices (which an object enumerates first) or
  that name members of \<^verbatim>\<open>Object.prototype\<close> are not URLs and are outside the model.
\<close>

type_synonym CacheStore = "(string \<times> CacheEntry) list"

definition wf_store :: "CacheStore \<Rightarrow> bool" where
  "wf_store store = distinct (map fst store)"

definition MAX_CACHED_IMAGES :: nat where
  "MAX_CACHED_IMAGES = 30"

subsection \<open>Local storage, the logger and the clock\<close>

text \<open>
  Modelled from the spec: \<^verbatim>\<open>safeParseJSON\<close> (lib/util/json) is not among the sources. Per
  the spec, malformed persisted data is the case in which no store is obtained. The text
  of the item under \<^verbatim>\<open>CACHE_LOCALSTORAGE_KEY\<close> is therefore either malformed or the
  JSON text of a store, as \<^verbatim>\<open>JSON.stringify\<close> writes it; parsing that text gives the
  store back.
\<close>

datatype item_text = Malformed | Stringified CacheStore

fun safeParseJSON :: "item_text \<Rightarrow> CacheStore option" where
  "safeParseJSON Malformed = None"
| "safeParseJSON (Stringified store) = Some store"

text \<open>
  The effects of the cache: the item in local storage under the key of the cache
  (\<open>None\<close> when \<^verbatim>\<open>getItem\<close> gives \<^verbatim>\<open>null\<close>), the messages passed to
  \<^verbatim>\<open>LOGGER.warn\<close> (oldest first), and every store handed to \<^verbatim>\<open>localStorage.setItem\<close>
  (oldest first). \<^verbatim>\<open>Date.now()\<close> is an argument of the operations that read it.
\<close>

record world =
  item :: "item_text option"
  warnings :: "string list"
  setItems :: "CacheStore list"

definition warn :: "string \<Rightarrow> world \<Rightarrow> world" where
  "warn msg w = w\<lparr>warnings := warnings w @ [msg]\<rparr>"

subsection \<open>The cache operations\<close>

definition putStore :: "CacheStore \<Rightarrow> world \<Rightarrow> world" where
  "putStore store w = w\<lparr>item := Some (Stringified store), setItems := setItems w @ [store]\<rparr>"

text \<open>\<^verbatim>\<open>localStorage.getItem(KEY) ?? '{}'\<close>: an unset item reads as the empty object.\<close>

definition getStore :: "world \<Rightarrow> CacheStore \<times> world" where
  "getStore w =
     (case safeParseJSON (case item w of None \<Rightarrow> Stringified [] | Some raw \<Rightarrow> raw) of
        None \<Rightarrow> ([], putStore [] (warn ''Cache was malformed, resetting'' w))
      | Some store \<Rightarrow> (store, w))"

definition getInfo :: "string \<Rightarrow> world \<Rightarrow> CacheEntry option \<times> world" where
  "getInfo imageUrl w = (case getStore w of (store, w') \<Rightarrow> (map_of store imageUrl, w'))"

text \<open>
  \<^verbatim>\<open>entries.sort(([, info1], [, info2]) => info2.addedDatetime - info1.addedDatetime)\<close>:
  a stable sort, newest entry first.
\<close>

definition sort_entries :: "CacheStore \<Rightarrow> CacheStore" where
  "sort_entries entries = sort_key (\<lambda>(url, info). - addedDatetime info) entries"

text \<open>
  The loop \<^verbatim>\<open>for (const [url] of entries.slice(MAX_CACHED_IMAGES - 1)) delete prevStore[url]\<close>,
  run only when the store has reached the maximum.
\<close>

definition evict :: "CacheStore \<Rightarrow> CacheStore" where
  "evict prevStore =
     (if length (map fst prevStore) \<ge> MAX_CACHED_IMAGES
      then fold (\<lambda>(url, info) store. AList.delete url store)
             (drop (MAX_CACHED_IMAGES - 1) (sort_entries prevStore)) prevStore
      else prevStore)"

text \<open>
  The object literal \<^verbatim>\<open>{...prevStore, [imageUrl]: {...cacheEntry, addedDatetime: Date.now()}}\<close>
  keeps the position of a key that is there and appends a new one.
\<close>

definition putInfo :: "string \<Rightarrow> PartialEntry \<Rightarrow> int \<Rightarrow> world \<Rightarrow> world" where
  "putInfo imageUrl cacheEntry now w =
     (case getStore w of (prevStore, w') \<Rightarrow>
        putStore
          (AList.update imageUrl
             \<lparr>dimensions = p_dimensions cacheEntry, fileInfo = p_fileInfo cacheEntry,
              addedDatetime = now\<rparr>
             (evict prevStore))
          w')"

definition getDimensions :: "string \<Rightarrow> world \<Rightarrow> Dimensions option \<times> world" where
  "getDimensions imageUrl w =
     (case getInfo imageUrl w of (info, w') \<Rightarrow> (Option.bind info dimensions, w'))"

definition getFileInfo :: "string \<Rightarrow> world \<Rightarrow> FileInfo option \<times> world" where
  "getFileInfo imageUrl w =
     (case getInfo imageUrl w of (info, w') \<Rightarrow> (Option.bind info fileInfo, w'))"

text \<open>
  \<^verbatim>\<open>{...prevEntry, dimensions}\<close>: the payload of the previous entry, if there is one, with
  one field replaced. The spread also copies the previous \<^verbatim>\<open>addedDatetime\<close>; \<^verbatim>\<open>putInfo\<close>
  overwrites it, so it is not kept in \<open>PartialEntry\<close>.
\<close>

definition spread :: "CacheEntry option \<Rightarrow> PartialEntry" where
  "spread prevEntry =
     (case prevEntry of
        None \<Rightarrow> \<lparr>p_dimensions = None, p_fileInfo = None\<rparr>
      | Some e \<Rightarrow> \<lparr>p_dimensions = dimensions e, p_fileInfo = fileInfo e\<rparr>)"

definition putDimensions :: "string \<Rightarrow> Dimensions \<Rightarrow> int \<Rightarrow> world \<Rightarrow> world" where
  "putDimensions imageUrl dims now w =
     (case getInfo imageUrl w of (prevEntry, w') \<Rightarrow>
        putInfo imageUrl ((spread prevEntry)\<lparr>p_dimensions := Some dims\<rparr>) now w')"

definition putFileInfo :: "string \<Rightarrow> FileInfo \<Rightarrow> int \<Rightarrow> world \<Rightarrow> world" where
  "putFileInfo imageUrl info now w =
     (case getInfo imageUrl w of (prevEntry, w') \<Rightarrow>
        putInfo imageUrl ((spread prevEntry)\<lparr>p_fileInfo := Some info\<rparr>) now w')"

text \<open>The store a world persists, read the way \<^verbatim>\<open>getStore\<close> reads it.\<close>

definition stored :: "world \<Rightarrow> CacheStore" where
  "stored w = fst (getStore w)"

section \<open>The file information fetcher (AtisketImage.loadFileInfo)\<close>

subsection \<open>Requests and their failures\<close>

text \<open>
  \<^verbatim>\<open>gmxhr\<close> (lib/util/xhr) is not among the sources: it is the network, and a parameter
  of the model. A request either resolves with a response, of which the source reads
  \<^verbatim>\<open>responseHeaders\<close> only, or rejects with an error: an \<^verbatim>\<open>HTTPResponseError\<close> with its
  \<^verbatim>\<open>statusCode\<close> and \<^verbatim>\<open>message\<close>, or any other error with its \<^verbatim>\<open>message\<close>. The request
  made by the \<open>n\<close>-th attempt (counted from 1) has the outcome \<open>gmxhr n\<close>.
\<close>

record Response =
  responseHeaders :: string

datatype fetch_error = HTTPResponseError int string | OtherError string

fun message :: "fetch_error \<Rightarrow> string" where
  "message (HTTPResponseError statusCode msg) = msg"
| "message (OtherError msg) = msg"

text \<open>The last character of the warning is U+2026, three bytes in UTF-8.\<close>

definition retrying_warning :: "fetch_error \<Rightarrow> string" where
  "retrying_warning err =
     ''Failed to retrieve image file info: '' @ message err @ ''. Retrying'' @
     [CHR 0xE2, CHR 0x80, CHR 0xA6]"

text \<open>
  The callback \<^verbatim>\<open>onFailedAttempt\<close>: it throws the error again (\<open>Inl\<close>) or logs a warning
  and returns.
\<close>

fun onFailedAttempt :: "fetch_error \<Rightarrow> world \<Rightarrow> fetch_error + world" where
  "onFailedAttempt (HTTPResponseError statusCode msg) w =
     (if statusCode < 500 \<and> statusCode \<noteq> 429
      then Inl (HTTPResponseError statusCode msg)
      else Inr (warn (retrying_warning (HTTPResponseError statusCode msg)) w))"
| "onFailedAttempt (OtherError msg) w = Inr (warn (retrying_warning (OtherError msg)) w)"

subsection \<open>The retry utility\<close>

text \<open>
  Modelled from the spec: \<^verbatim>\<open>pRetry\<close> (the package p-retry) is not among the sources. Per
  the spec it is a loop over attempts with a counter bounding them: a successful attempt
  ends it with the response; after a failed attempt the callback classifies the failure,
  and an error thrown by the callback is raised at once with no further attempt;
  otherwise the request is made again if retries remain, and when none remain the last
  failure is raised. The spec does not say whether the callback runs after the last
  failed attempt; here it runs after every failed attempt, as its name says. The result
  carries the number of attempts made.
\<close>

fun pRetry ::
  "(nat \<Rightarrow> fetch_error + 'a) \<Rightarrow> nat \<Rightarrow> (fetch_error \<Rightarrow> world \<Rightarrow> fetch_error + world) \<Rightarrow>
     nat \<Rightarrow> world \<Rightarrow> (fetch_error + 'a) \<times> nat \<times> world" where
  "pRetry input retries onFailed attemptNumber w =
     (case input attemptNumber of
        Inr result \<Rightarrow> (Inr result, attemptNumber, w)
      | Inl err \<Rightarrow>
          (case onFailed err w of
             Inl thrown \<Rightarrow> (Inl thrown, attemptNumber, w)
           | Inr w' \<Rightarrow>
               (case retries of
                  0 \<Rightarrow> (Inl err, attemptNumber, w')
                | Suc retriesLeft \<Rightarrow>
                    pRetry input retriesLeft onFailed (Suc attemptNumber) w')))"

subsection \<open>Reading the response headers\<close>

text \<open>
  The header text is a list of characters; only ASCII characters can take part in a
  match of the two patterns. \<^verbatim>\<open>\d\<close> and \<^verbatim>\<open>\w\<close> are the ASCII classes, and under the
  \<^verbatim>\<open>i\<close> flag a literal character of a pattern matches its two cases.
\<close>

definition isDigit :: "char \<Rightarrow> bool" where
  "isDigit c = (c \<in> set ''0123456789'')"

definition isWord :: "char \<Rightarrow> bool" where
  "isWord c =
     (c \<in> set ''abcdefghijklmnopqrstuvwxyzABCDEFGHIJKLMNOPQRSTUVWXYZ0123456789_'')"

definition upper_char :: "char \<Rightarrow> char" where
  "upper_char c =
     (case map_of (zip ''abcdefghijklmnopqrstuvwxyz'' ''ABCDEFGHIJKLMNOPQRSTUVWXYZ'') c of
        None \<Rightarrow> c
      | Some u \<Rightarrow> u)"

definition toUpperCase :: "string \<Rightarrow> string" where
  "toUpperCase s = map upper_char s"

text \<open>A literal of a pattern, matched at the start of the text ignoring case.\<close>

fun literal_i :: "string \<Rightarrow> string \<Rightarrow> string option" where
  "literal_i [] s = Some s"
| "literal_i (p # ps) [] = None"
| "literal_i (p # ps) (c # cs) =
     (if upper_char p = upper_char c then literal_i ps cs else None)"

text \<open>
  \<^verbatim>\<open>/content-length: (\d+)/i\<close> tried at the start of the text; the result is group 1.
  The quantifier is greedy, so the group is the longest run of digits.
\<close>

definition content_length_at :: "string \<Rightarrow> string option" where
  "content_length_at s =
     (case literal_i ''content-length: '' s of
        None \<Rightarrow> None
      | Some rest \<Rightarrow>
          (let digits = takeWhile isDigit rest
           in if digits = [] then None else Some digits))"

text \<open>
  \<^verbatim>\<open>/content-type: \w+\/(\w+)/i\<close> tried at the start of the text. A slash is no word
  character, so the first \<^verbatim>\<open>\w+\<close> can only end where the run of word characters ends.
\<close>

definition content_type_at :: "string \<Rightarrow> string option" where
  "content_type_at s =
     (case literal_i ''content-type: '' s of
        None \<Rightarrow> None
      | Some rest \<Rightarrow>
          (if takeWhile isWord rest = [] then None
           else (case dropWhile isWord rest of
                   [] \<Rightarrow> None
                 | c # rest' \<Rightarrow>
                     (if c = CHR ''/'' \<and> takeWhile isWord rest' \<noteq> []
                      then Some (takeWhile isWord rest') else None))))"

text \<open>\<^verbatim>\<open>String.prototype.match\<close> without the \<^verbatim>\<open>g\<close> flag: the leftmost match.\<close>

fun match_first :: "(string \<Rightarrow> string option) \<Rightarrow> string \<Rightarrow> string option" where
  "match_first pattern_at [] = pattern_at []"
| "match_first pattern_at (c # cs) =
     (case pattern_at (c # cs) of
        Some group1 \<Rightarrow> Some group1
      | None \<Rightarrow> match_first pattern_at cs)"

text \<open>
  \<^verbatim>\<open>parseInt\<close> on a string of decimal digits. JavaScript numbers are doubles: the model
  is the value of the numeral, which is what \<^verbatim>\<open>parseInt\<close> returns below \<open>2 ^ 53\<close>, so
  for every numeral of at most 15 digits.
\<close>

definition parseInt :: "string \<Rightarrow> nat" where
  "parseInt digits = foldl (\<lambda>n c. 10 * n + (of_char c - 48)) 0 digits"

text \<open>Lines 117 to 123 of the source: the file information read from a response.\<close>

definition fileInfoOfResponse :: "Response \<Rightarrow> FileInfo" where
  "fileInfoOfResponse resp =
     (let fileSize = match_first content_length_at (responseHeaders resp);
          fileType = match_first content_type_at (responseHeaders resp)
      in \<lparr>fileType = map_option toUpperCase fileType,
          size_fi = (case fileSize of
                       None \<Rightarrow> None
                     | Some digits \<Rightarrow> if digits \<noteq> [] then Some (parseInt digits) else None)\<rparr>)"

text \<open>
  \<^verbatim>\<open>loadFileInfo\<close>: the request is retried with \<^verbatim>\<open>retries: 5\<close>. The result is the
  file information or the error raised, with the number of requests made and the world
  after the warnings.
\<close>

definition loadFileInfo ::
  "(nat \<Rightarrow> fetch_error + Response) \<Rightarrow> world \<Rightarrow> (fetch_error + FileInfo) \<times> nat \<times> world" where
  "loadFileInfo gmxhr w =
     (case pRetry gmxhr 5 onFailedAttempt 1 w of
        (Inl err, attempts, w') \<Rightarrow> (Inl err, attempts, w')
      | (Inr resp, attempts, w') \<Rightarrow> (Inr (fileInfoOfResponse resp), attempts, w'))"

section \<open>Vocabulary of the properties\<close>

subsection \<open>Runs of cache operations\<close>

text \<open>
  The operations of the cache object, each paired with the value \<^verbatim>\<open>Date.now()\<close> has while
  it runs. \<^verbatim>\<open>putStore\<close> is the serialisation step of the others and takes a whole store;
  it is not an operation on a key and is not part of a run.
\<close>

datatype cache_op =
    GetStore
  | GetInfo string
  | PutInfo string PartialEntry
  | GetDimensions string
  | GetFileInfo string
  | PutDimensions string Dimensions
  | PutFileInfo string FileInfo

fun perform :: "cache_op \<times> int \<Rightarrow> world \<Rightarrow> world" where
  "perform (GetStore, now) w = snd (getStore w)"
| "perform (GetInfo imageUrl, now) w = snd (getInfo imageUrl w)"
| "perform (PutInfo imageUrl cacheEntry, now) w = putInfo imageUrl cacheEntry now w"
| "perform (GetDimensions imageUrl, now) w = snd (getDimensions imageUrl w)"
| "perform (GetFileInfo imageUrl, now) w = snd (getFileInfo imageUrl w)"
| "perform (PutDimensions imageUrl dims, now) w = putDimensions imageUrl dims now w"
| "perform (PutFileInfo imageUrl info, now) w = putFileInfo imageUrl info now w"

fun writes_to :: "cache_op \<Rightarrow> string \<Rightarrow> bool" where
  "writes_to (PutInfo imageUrl cacheEntry) k = (imageUrl = k)"
| "writes_to (PutDimensions imageUrl dims) k = (imageUrl = k)"
| "writes_to (PutFileInfo imageUrl info) k = (imageUrl = k)"
| "writes_to other k = False"

fun last_write :: "string \<Rightarrow> (cache_op \<times> int) list \<Rightarrow> int option" where
  "last_write k [] = None"
| "last_write k ((operation, now) # ops) =
     (case last_write k ops of
        Some t \<Rightarrow> Some t
      | None \<Rightarrow> if writes_to operation k then Some now else None)"

text \<open>The operations run in order, each on the world the one before it left.\<close>

definition run :: "(cache_op \<times> int) list \<Rightarrow> world \<Rightarrow> world" where
  "run ops w = fold perform ops w"

subsection \<open>Classes of failed requests\<close>

text \<open>
  The two classes of failures the retry rule is stated with: a client error other than
  429 (status from 400 up to 499), and the failures to be retried: an error that is no
  HTTP response error, a status of 500 or more, and 429. An \<^verbatim>\<open>HTTPResponseError\<close> with a
  status below 400 is in neither class; a comment in the source says \<^verbatim>\<open>gmxhr\<close> raises
  none.
\<close>

fun spec_permanent :: "fetch_error \<Rightarrow> bool" where
  "spec_permanent (HTTPResponseError statusCode msg) =
     (400 \<le> statusCode \<and> statusCode < 500 \<and> statusCode \<noteq> 429)"
| "spec_permanent (OtherError msg) = False"

fun spec_transient :: "fetch_error \<Rightarrow> bool" where
  "spec_transient (HTTPResponseError statusCode msg) = (500 \<le> statusCode \<or> statusCode = 429)"
| "spec_transient (OtherError msg) = True"

text \<open>The world after a warning for each of the listed attempts, in order.\<close>

definition warn_all :: "(nat \<Rightarrow> fetch_error) \<Rightarrow> nat list \<Rightarrow> world \<Rightarrow> world" where
  "warn_all errs attempts w = fold (\<lambda>i. warn (retrying_warning (errs i))) attempts w"

subsection \<open>Header text\<close>






section \<open>Example inputs\<close>

text \<open>
  A store at capacity: thirty image URLs written one millisecond apart, the oldest
  first.
\<close>

definition example_key :: "char \<Rightarrow> string" where
  "example_key c = ''https://example.org/'' @ [c] @ ''.jpg''"

definition example_store :: CacheStore where
  "example_store =
     map (\<lambda>(c, t). (example_key c, \<lparr>dimensions = None, fileInfo = None, addedDatetime = t\<rparr>))
       (zip ''abcdefghijklmnopqrstuvwxyzABCD'' [1000 .. 1029])"

definition example_world :: world where
  "example_world = \<lparr>item = Some (Stringified example_store), warnings = [], setItems = []\<rparr>"

definition malformed_world :: world where
  "malformed_world = \<lparr>item = Some Malformed, warnings = [], setItems = []\<rparr>"

definition example_dimensions :: Dimensions where
  "example_dimensions = \<lparr>width = 600, height = 400\<rparr>"

definition example_fileInfo :: FileInfo where
  "example_fileInfo = \<lparr>fileType = Some ''PNG'', size_fi = Some 12345\<rparr>"

definition one_entry_world :: world where
  "one_entry_world =
     \<lparr>item = Some (Stringified [(example_key CHR ''a'',
         \<lparr>dimensions = Some example_dimensions, fileInfo = None, addedDatetime = 1000\<rparr>)]),
      warnings = [], setItems = []\<rparr>"

definition fresh_world :: world where
  "fresh_world = \<lparr>item = None, warnings = [], setItems = []\<rparr>"

definition example_ops :: "(cache_op \<times> int) list" where
  "example_ops =
     [(PutInfo (example_key CHR ''Z'') \<lparr>p_dimensions = None, p_fileInfo = None\<rparr>, 2001),
      (GetInfo (example_key CHR ''a''), 2002),
      (PutFileInfo (example_key CHR ''c'') example_fileInfo, 2003)]"

text \<open>A header block of two lines, each ended by CR LF, and one with neither header.\<close>

definition example_headers :: string where
  "example_headers =
     ''content-length: 12345'' @ [CHR 0x0D, CHR 0x0A] @
     ''content-type: image/png'' @ [CHR 0x0D, CHR 0x0A]"




text \<open>
  Three networks: one that answers every request with 404, one that answers every
  request with 500, and one that answers 429 three times and then succeeds.
\<close>

definition not_found :: fetch_error where
  "not_found = HTTPResponseError 404 ''HTTP error 404: Not Found''"


definition rate_limited :: fetch_error where
  "rate_limited = HTTPResponseError 429 ''HTTP error 429: Too Many Requests''"

definition always_404 :: "nat \<Rightarrow> fetch_error + Response" where
  "always_404 n = Inl not_found"


definition thrice_429 :: "nat \<Rightarrow> fetch_error + Response" where
  "thrice_429 n =
     (if n \<le> 3 then Inl rate_limited else Inr \<lparr>responseHeaders = example_headers\<rparr>)"

declare pRetry.simps [simp del]

section \<open>Properties of the cache\<close>

subsection \<open>Reading and writing the store\<close>

lemma getStore_stored: "\<exists>w'. getStore w = (stored w, w') \<and> stored w' = stored w"
proof (cases "item w")
  case None
  then show ?thesis
    by (simp add: getStore_def stored_def)
next
  case (Some raw)
  then show ?thesis
    by (cases raw) (simp_all add: getStore_def stored_def putStore_def warn_def)
qed

lemma getStore_Stringified: "item w = Some (Stringified store) \<Longrightarrow> getStore w = (store, w)"
  by (simp add: getStore_def)

lemma stored_Stringified: "item w = Some (Stringified store) \<Longrightarrow> stored w = store"
  by (simp add: stored_def getStore_Stringified)

lemma stored_putStore: "stored (putStore store w) = store"
  by (simp add: stored_def getStore_def putStore_def)

lemma stored_putInfo:
  "stored (putInfo imageUrl cacheEntry now w) =
     AList.update imageUrl
       \<lparr>dimensions = p_dimensions cacheEntry, fileInfo = p_fileInfo cacheEntry,
        addedDatetime = now\<rparr>
       (evict (stored w))"
proof -
  obtain w' where "getStore w = (stored w, w')"
    using getStore_stored by blast
  then show ?thesis
    by (simp add: putInfo_def stored_putStore)
qed

lemma getInfo_stored: "\<exists>w'. getInfo imageUrl w = (map_of (stored w) imageUrl, w') \<and> stored w' = stored w"
  using getStore_stored [of w] by (auto simp: getInfo_def)

lemma stored_putDimensions:
  "stored (putDimensions imageUrl dims now w) =
     AList.update imageUrl
       \<lparr>dimensions = Some dims, fileInfo = Option.bind (map_of (stored w) imageUrl) fileInfo,
        addedDatetime = now\<rparr>
       (evict (stored w))"
proof -
  obtain w' where "getInfo imageUrl w = (map_of (stored w) imageUrl, w')" "stored w' = stored w"
    using getInfo_stored by blast
  then show ?thesis
    by (simp add: putDimensions_def stored_putInfo spread_def split: option.splits)
qed

lemma stored_putFileInfo:
  "stored (putFileInfo imageUrl info now w) =
     AList.update imageUrl
       \<lparr>dimensions = Option.bind (map_of (stored w) imageUrl) dimensions, fileInfo = Some info,
        addedDatetime = now\<rparr>
       (evict (stored w))"
proof -
  obtain w' where "getInfo imageUrl w = (map_of (stored w) imageUrl, w')" "stored w' = stored w"
    using getInfo_stored by blast
  then show ?thesis
    by (simp add: putFileInfo_def stored_putInfo spread_def split: option.splits)
qed

lemma stored_read_only:
  "stored (snd (getStore w)) = stored w"
  "stored (snd (getInfo k w)) = stored w"
  "stored (snd (getDimensions k w)) = stored w"
  "stored (snd (getFileInfo k w)) = stored w"
  using getStore_stored [of w] getInfo_stored [of k w]
  by (auto simp: getDimensions_def getFileInfo_def)

subsection \<open>Eviction\<close>

lemma fold_delete_filter:
  "fold (\<lambda>(url, info) store. AList.delete url store) doomed store =
     filter (\<lambda>p. fst p \<notin> fst ` set doomed) store"
proof (induction doomed arbitrary: store)
  case Nil
  then show ?case by simp
next
  case (Cons d doomed)
  obtain url info where d: "d = (url, info)" by (cases d)
  have "filter (\<lambda>p. fst p \<notin> fst ` set doomed) (AList.delete url store) =
        filter (\<lambda>p. fst p \<notin> fst ` set (d # doomed)) store"
    by (induction store) (auto simp: d AList.delete_eq)
  with Cons.IH [of "AList.delete url store"] show ?case
    by (simp add: d)
qed

lemma length_filter_sort_entries:
  "length (filter P (sort_entries store)) = length (filter P store)"
proof -
  have "mset (filter P (sort_entries store)) = mset (filter P store)"
    by (simp add: sort_entries_def)
  then show ?thesis
    by (metis size_mset)
qed

lemma length_evict_full:
  assumes "length store \<ge> MAX_CACHED_IMAGES"
  shows "length (evict store) \<le> MAX_CACHED_IMAGES - 1"
proof -
  let ?s = "sort_entries store"
  let ?n = "MAX_CACHED_IMAGES - 1"
  let ?P = "\<lambda>p. fst p \<notin> fst ` set (drop ?n ?s)"
  have "length (filter ?P store) = length (filter ?P ?s)"
    by (simp add: length_filter_sort_entries)
  also have "\<dots> = length (filter ?P (take ?n ?s @ drop ?n ?s))"
    by simp
  also have "\<dots> = length (filter ?P (take ?n ?s)) + length (filter ?P (drop ?n ?s))"
    by (simp only: filter_append length_append)
  also have "filter ?P (drop ?n ?s) = []"
    by (auto simp: filter_empty_conv)
  finally have "length (filter ?P store) \<le> length (take ?n ?s)"
    using length_filter_le [of ?P "take ?n ?s"] by simp
  then have "length (filter ?P store) \<le> ?n"
    by simp
  with assms show ?thesis
    by (simp add: evict_def fold_delete_filter)
qed

lemma length_update_le: "length (AList.update k v al) \<le> Suc (length al)"
  by (induction al) auto

lemma length_putInfo_store:
  "length (AList.update k v (evict store)) \<le> MAX_CACHED_IMAGES"
proof (cases "length store \<ge> MAX_CACHED_IMAGES")
  case True
  from length_evict_full [OF True] length_update_le [of k v "evict store"]
  show ?thesis by (simp add: MAX_CACHED_IMAGES_def)
next
  case False
  then have "evict store = store" by (simp add: evict_def)
  with False length_update_le [of k v store] show ?thesis by simp
qed

lemma map_of_filter_keys:
  "map_of (filter (\<lambda>p. fst p \<notin> D) al) k = (if k \<in> D then None else map_of al k)"
  by (induction al) auto

lemma evict_filter:
  "evict store =
     (if length store \<ge> MAX_CACHED_IMAGES
      then filter (\<lambda>p. fst p \<notin> fst ` set (drop (MAX_CACHED_IMAGES - 1) (sort_entries store))) store
      else store)"
  by (simp add: evict_def fold_delete_filter)

lemma map_of_evict_Some: "map_of (evict store) k = Some e \<Longrightarrow> map_of store k = Some e"
  by (auto simp: evict_filter map_of_filter_keys split: if_splits)

lemma set_sort_entries: "set (sort_entries store) = set store"
  by (simp add: sort_entries_def)

lemma length_sort_entries: "length (sort_entries store) = length store"
  by (simp add: sort_entries_def)

lemma sorted_last_least:
  assumes "sorted (map f xs)" "x \<in> set xs"
  shows "f x \<le> f (last xs)"
proof -
  from assms(2) obtain i where i: "i < length xs" "xs ! i = x"
    by (auto simp: in_set_conv_nth)
  then have ne: "xs \<noteq> []" by auto
  from assms(1) i(1) have "map f xs ! i \<le> map f xs ! (length xs - 1)"
    by (intro sorted_nth_mono) auto
  with i ne show ?thesis
    by (simp add: last_conv_nth)
qed

lemma last_sort_entries_oldest:
  assumes "p \<in> set store"
  shows "addedDatetime (snd (last (sort_entries store))) \<le> addedDatetime (snd p)"
proof -
  let ?f = "\<lambda>(url, info). - addedDatetime info"
  have "sorted (map ?f (sort_entries store))"
    by (simp add: sort_entries_def)
  moreover from assms have "p \<in> set (sort_entries store)"
    by (simp add: set_sort_entries)
  ultimately have "?f p \<le> ?f (last (sort_entries store))"
    by (rule sorted_last_least)
  then show ?thesis
    by (simp add: case_prod_beta)
qed

lemma last_sort_entries_in:
  "store \<noteq> [] \<Longrightarrow> last (sort_entries store) \<in> set store"
proof -
  assume "store \<noteq> []"
  then have "sort_entries store \<noteq> []"
    using length_sort_entries [of store] by auto
  then have "last (sort_entries store) \<in> set (sort_entries store)"
    by (rule last_in_set)
  then show ?thesis
    by (simp add: set_sort_entries)
qed

lemma drop_last_singleton: "length xs = Suc n \<Longrightarrow> drop n xs = [last xs]"
  by (induction xs arbitrary: n) (auto simp: drop_Cons split: nat.splits)

lemma length_delete_distinct:
  "distinct (map fst al) \<Longrightarrow> k \<in> fst ` set al \<Longrightarrow> Suc (length (AList.delete k al)) = length al"
  by (induction al) auto

lemma set_delete_distinct:
  "distinct (map fst al) \<Longrightarrow> (k, v) \<in> set al \<Longrightarrow> set (AList.delete k al) = set al - {(k, v)}"
  by (induction al) (auto simp: rev_image_eqI)

lemma update_absent: "k \<notin> fst ` set al \<Longrightarrow> AList.update k v al = al @ [(k, v)]"
  by (induction al) auto

lemma length_update_present: "k \<in> fst ` set al \<Longrightarrow> length (AList.update k v al) = length al"
  by (induction al) auto

lemma evict_exactly_full:
  assumes "length store = MAX_CACHED_IMAGES"
  shows "evict store = AList.delete (fst (last (sort_entries store))) store"
proof -
  have "length (sort_entries store) = Suc (MAX_CACHED_IMAGES - 1)"
    using assms by (simp add: length_sort_entries MAX_CACHED_IMAGES_def)
  then have "drop (MAX_CACHED_IMAGES - 1) (sort_entries store) = [last (sort_entries store)]"
    by (rule drop_last_singleton)
  with assms show ?thesis
    by (simp add: evict_def case_prod_beta)
qed

lemma distinct_evict: "distinct (map fst store) \<Longrightarrow> distinct (map fst (evict store))"
  by (simp add: evict_filter distinct_map_filter)

lemma count_key_distinct:
  "distinct (map fst al) \<Longrightarrow> k \<in> fst ` set al \<Longrightarrow> length (filter (\<lambda>p. fst p = k) al) = 1"
  by (induction al) (auto simp: rev_image_eqI filter_empty_conv)

lemma count_key_update_evict:
  assumes "wf_store store"
  shows "length (filter (\<lambda>p. fst p = k) (AList.update k e (evict store))) = 1"
proof -
  from assms have "distinct (map fst (AList.update k e (evict store)))"
    by (simp add: wf_store_def distinct_evict AList.distinct_update)
  moreover have "k \<in> fst ` set (AList.update k e (evict store))"
    by (simp add: AList.dom_update)
  ultimately show ?thesis
    by (rule count_key_distinct)
qed

lemma wf_store_update_evict:
  "wf_store store \<Longrightarrow> wf_store (AList.update k e (evict store))"
  by (simp add: wf_store_def distinct_evict AList.distinct_update)

subsection \<open>One operation of a run\<close>

lemma perform_entry:
  assumes "map_of (stored (perform (operation, now) w)) k = Some e"
  shows "if writes_to operation k then addedDatetime e = now else map_of (stored w) k = Some e"
proof (cases operation)
  case (PutInfo imageUrl cacheEntry)
  with assms show ?thesis
    by (cases "imageUrl = k")
      (auto simp: stored_putInfo AList.update_conv' dest: map_of_evict_Some)
next
  case (PutDimensions imageUrl dims)
  with assms show ?thesis
    by (cases "imageUrl = k")
      (auto simp: stored_putDimensions AList.update_conv' dest: map_of_evict_Some)
next
  case (PutFileInfo imageUrl info)
  with assms show ?thesis
    by (cases "imageUrl = k")
      (auto simp: stored_putFileInfo AList.update_conv' dest: map_of_evict_Some)
qed (use assms in \<open>simp_all add: stored_read_only\<close>)

lemma perform_write:
  assumes "writes_to operation k"
  shows "\<exists>e. map_of (stored (perform (operation, now) w)) k = Some e \<and> addedDatetime e = now"
  using assms
  by (cases operation)
    (simp_all add: stored_putInfo stored_putDimensions stored_putFileInfo AList.update_conv')

subsection \<open>The capacity bound\<close>

text \<open>
  C1. Whatever local storage holds (nothing, malformed data, or a store of any size) and
  whatever key and entry are written, after \<^verbatim>\<open>putInfo\<close> the persisted item is a store
  with at most \<^verbatim>\<open>MAX_CACHED_IMAGES\<close> = 30 entries.
\<close>

theorem putInfo_at_most_MAX_CACHED_IMAGES:
  "\<exists>store. item (putInfo imageUrl cacheEntry now w) = Some (Stringified store) \<and>
     length store \<le> MAX_CACHED_IMAGES \<and> MAX_CACHED_IMAGES = 30"
proof -
  obtain prevStore w' where g: "getStore w = (prevStore, w')"
    by (cases "getStore w")
  let ?e = "\<lparr>dimensions = p_dimensions cacheEntry, fileInfo = p_fileInfo cacheEntry,
             addedDatetime = now\<rparr>"
  have "item (putInfo imageUrl cacheEntry now w) =
        Some (Stringified (AList.update imageUrl ?e (evict prevStore)))"
    by (simp add: putInfo_def putStore_def g)
  moreover have "length (AList.update imageUrl ?e (evict prevStore)) \<le> MAX_CACHED_IMAGES"
    by (rule length_putInfo_store)
  moreover have "MAX_CACHED_IMAGES = 30"
    by (simp add: MAX_CACHED_IMAGES_def)
  ultimately show ?thesis by blast
qed

theorem putInfo_at_most_MAX_CACHED_IMAGES_witness:
  "\<exists>store. item (putInfo (example_key CHR ''Z'')
       \<lparr>p_dimensions = Some example_dimensions, p_fileInfo = None\<rparr> 2000 example_world) =
       Some (Stringified store) \<and> length store \<le> MAX_CACHED_IMAGES \<and> MAX_CACHED_IMAGES = 30"
  using putInfo_at_most_MAX_CACHED_IMAGES [of "example_key CHR ''Z''"
      "\<lparr>p_dimensions = Some example_dimensions, p_fileInfo = None\<rparr>" 2000 example_world]
  by simp

subsection \<open>What a write stores\<close>

text \<open>
  C2, as amended. \<^verbatim>\<open>putInfo(key, partialEntry)\<close> does not merge: whatever local storage
  holds, the entry stored for the key after the call has exactly the payload fields of
  \<^verbatim>\<open>partialEntry\<close>, stamped with the current time. A payload field that \<^verbatim>\<open>partialEntry\<close>
  lacks is absent afterwards, also when the prior entry had it. (The merge with the prior
  entry is made by \<^verbatim>\<open>putDimensions\<close> and \<^verbatim>\<open>putFileInfo\<close> before they call \<^verbatim>\<open>putInfo\<close>.)
\<close>

theorem putInfo_replaces_entry:
  "map_of (stored (putInfo imageUrl cacheEntry now w)) imageUrl =
     Some \<lparr>dimensions = p_dimensions cacheEntry, fileInfo = p_fileInfo cacheEntry,
           addedDatetime = now\<rparr>"
  by (simp add: stored_putInfo AList.update_conv')

theorem putInfo_replaces_entry_witness:
  "map_of (stored (putInfo (example_key CHR ''a'')
        \<lparr>p_dimensions = None, p_fileInfo = Some example_fileInfo\<rparr> 2000 one_entry_world))
      (example_key CHR ''a'') =
     Some \<lparr>dimensions = None, fileInfo = Some example_fileInfo, addedDatetime = 2000\<rparr>"
  using putInfo_replaces_entry [of "example_key CHR ''a''"
      "\<lparr>p_dimensions = None, p_fileInfo = Some example_fileInfo\<rparr>" 2000 one_entry_world]
  by simp

text \<open>
  C2 as stated fails: the entry of \<open>one_entry_world\<close> has dimensions and no file
  information; after \<^verbatim>\<open>putInfo\<close> with a partial entry that has file information only,
  the stored entry has no dimensions.
\<close>

theorem putInfo_drops_absent_field:
  "map_of (stored one_entry_world) (example_key CHR ''a'') =
     Some \<lparr>dimensions = Some example_dimensions, fileInfo = None, addedDatetime = 1000\<rparr> \<and>
   map_of (stored (putInfo (example_key CHR ''a'')
        \<lparr>p_dimensions = None, p_fileInfo = Some example_fileInfo\<rparr> 2000 one_entry_world))
      (example_key CHR ''a'') =
     Some \<lparr>dimensions = None, fileInfo = Some example_fileInfo, addedDatetime = 2000\<rparr>"
  by code_simp

subsection \<open>Writing a new key at capacity\<close>

text \<open>
  C3. The store holds exactly thirty entries and the key written is not among them.
  Then one entry, the victim, is removed: no entry of the prior store is older than it;
  the persisted store is the prior store without the victim, followed by the new entry,
  so the new entry is there, every other prior entry is kept, and the store again holds
  thirty entries.
\<close>

theorem putInfo_new_key_at_capacity:
  assumes "item w = Some (Stringified store)" and "wf_store store"
    and "length store = MAX_CACHED_IMAGES" and "imageUrl \<notin> fst ` set store"
  shows "\<exists>victim \<in> set store.
           (\<forall>p \<in> set store. addedDatetime (snd victim) \<le> addedDatetime (snd p)) \<and>
           item (putInfo imageUrl cacheEntry now w) =
             Some (Stringified (AList.delete (fst victim) store @
               [(imageUrl, \<lparr>dimensions = p_dimensions cacheEntry,
                   fileInfo = p_fileInfo cacheEntry, addedDatetime = now\<rparr>)])) \<and>
           set (stored (putInfo imageUrl cacheEntry now w)) =
             (set store - {victim}) \<union>
               {(imageUrl, \<lparr>dimensions = p_dimensions cacheEntry,
                   fileInfo = p_fileInfo cacheEntry, addedDatetime = now\<rparr>)} \<and>
           length (stored (putInfo imageUrl cacheEntry now w)) = 30"
proof -
  let ?victim = "last (sort_entries store)"
  let ?new = "\<lparr>dimensions = p_dimensions cacheEntry, fileInfo = p_fileInfo cacheEntry,
                addedDatetime = now\<rparr>"
  let ?after = "AList.delete (fst ?victim) store @ [(imageUrl, ?new)]"
  from assms(3) have ne: "store \<noteq> []"
    by (auto simp: MAX_CACHED_IMAGES_def)
  then have vin: "?victim \<in> set store"
    by (rule last_sort_entries_in)
  have oldest: "\<forall>p \<in> set store. addedDatetime (snd ?victim) \<le> addedDatetime (snd p)"
    by (simp add: last_sort_entries_oldest)
  have ev: "evict store = AList.delete (fst ?victim) store"
    using assms(3) by (rule evict_exactly_full)
  have "imageUrl \<notin> fst ` set (AList.delete (fst ?victim) store)"
    using assms(4) AList.dom_delete_subset [of "fst ?victim" store] by blast
  then have upd: "AList.update imageUrl ?new (evict store) = ?after"
    by (simp add: ev update_absent)
  have it: "item (putInfo imageUrl cacheEntry now w) = Some (Stringified ?after)"
    using assms(1) upd by (simp add: putInfo_def getStore_Stringified putStore_def)
  then have st: "stored (putInfo imageUrl cacheEntry now w) = ?after"
    by (rule stored_Stringified)
  have d: "distinct (map fst store)"
    using assms(2) by (simp add: wf_store_def)
  have "(fst ?victim, snd ?victim) \<in> set store"
    using vin by simp
  with d have "set (AList.delete (fst ?victim) store) = set store - {(fst ?victim, snd ?victim)}"
    by (rule set_delete_distinct)
  then have s: "set ?after = (set store - {?victim}) \<union> {(imageUrl, ?new)}"
    by simp
  from vin have "fst ?victim \<in> fst ` set store"
    by (rule imageI)
  with d have "Suc (length (AList.delete (fst ?victim) store)) = length store"
    by (rule length_delete_distinct)
  with assms(3) have l: "length ?after = 30"
    by (simp add: MAX_CACHED_IMAGES_def)
  from vin oldest it s l show ?thesis
    unfolding st by blast
qed

theorem putInfo_new_key_at_capacity_witness:
  "item example_world = Some (Stringified example_store) \<and> wf_store example_store \<and>
   length example_store = MAX_CACHED_IMAGES \<and>
   example_key CHR ''Z'' \<notin> fst ` set example_store \<and>
   (\<exists>victim \<in> set example_store.
      (\<forall>p \<in> set example_store. addedDatetime (snd victim) \<le> addedDatetime (snd p)) \<and>
      item (putInfo (example_key CHR ''Z'')
          \<lparr>p_dimensions = Some example_dimensions, p_fileInfo = None\<rparr> 2000 example_world) =
        Some (Stringified (AList.delete (fst victim) example_store @
          [(example_key CHR ''Z'', \<lparr>dimensions = Some example_dimensions,
              fileInfo = None, addedDatetime = 2000\<rparr>)])) \<and>
      set (stored (putInfo (example_key CHR ''Z'')
          \<lparr>p_dimensions = Some example_dimensions, p_fileInfo = None\<rparr> 2000 example_world)) =
        (set example_store - {victim}) \<union>
          {(example_key CHR ''Z'', \<lparr>dimensions = Some example_dimensions,
              fileInfo = None, addedDatetime = 2000\<rparr>)} \<and>
      length (stored (putInfo (example_key CHR ''Z'')
          \<lparr>p_dimensions = Some example_dimensions, p_fileInfo = None\<rparr> 2000 example_world)) = 30)"
proof -
  have 1: "item example_world = Some (Stringified example_store)"
    by (simp add: example_world_def)
  have 2: "wf_store example_store" by code_simp
  have 3: "length example_store = MAX_CACHED_IMAGES" by code_simp
  have 4: "example_key CHR ''Z'' \<notin> fst ` set example_store" by code_simp
  from putInfo_new_key_at_capacity [OF 1 2 3 4,
      of "\<lparr>p_dimensions = Some example_dimensions, p_fileInfo = None\<rparr>" 2000]
  show ?thesis using 1 2 3 4 by simp
qed

subsection \<open>A malformed item\<close>

text \<open>
  C6. When the item in local storage does not parse, \<^verbatim>\<open>getStore\<close> returns the empty store;
  it logs one warning and writes local storage once, with the empty store. Nothing else
  changes, and there is no failing case.
\<close>

theorem getStore_malformed:
  "item w = Some Malformed \<Longrightarrow>
     getStore w =
       ([], w\<lparr>item := Some (Stringified []),
              warnings := warnings w @ [''Cache was malformed, resetting''],
              setItems := setItems w @ [[]]\<rparr>)"
  by (simp add: getStore_def putStore_def warn_def)

theorem getStore_malformed_witness:
  "item malformed_world = Some Malformed \<and>
   getStore malformed_world =
     ([], \<lparr>item = Some (Stringified []), warnings = [''Cache was malformed, resetting''], setItems = [[]]\<rparr>)"
  using getStore_malformed [of malformed_world] by (simp add: malformed_world_def)

subsection \<open>The convenience writers\<close>

text \<open>
  C7. For every key and whatever local storage holds, \<^verbatim>\<open>putDimensions\<close> followed by
  \<^verbatim>\<open>putFileInfo\<close> on that key, and the two in the other order, leave an entry for the key
  with both the dimensions and the file information written. Each writer alone stores its
  field and leaves the other field as the prior entry had it (absent when there was no
  entry). If the prior store has no key twice, the key has exactly one entry afterwards.
\<close>

theorem putDimensions_putFileInfo_keep_both:
  "map_of (stored (putFileInfo imageUrl info t2 (putDimensions imageUrl dims t1 w))) imageUrl =
     Some \<lparr>dimensions = Some dims, fileInfo = Some info, addedDatetime = t2\<rparr> \<and>
   map_of (stored (putDimensions imageUrl dims t2 (putFileInfo imageUrl info t1 w))) imageUrl =
     Some \<lparr>dimensions = Some dims, fileInfo = Some info, addedDatetime = t2\<rparr> \<and>
   map_of (stored (putDimensions imageUrl dims t1 w)) imageUrl =
     Some \<lparr>dimensions = Some dims,
           fileInfo = Option.bind (map_of (stored w) imageUrl) fileInfo, addedDatetime = t1\<rparr> \<and>
   map_of (stored (putFileInfo imageUrl info t1 w)) imageUrl =
     Some \<lparr>dimensions = Option.bind (map_of (stored w) imageUrl) dimensions,
           fileInfo = Some info, addedDatetime = t1\<rparr> \<and>
   (wf_store (stored w) \<longrightarrow>
      length (filter (\<lambda>p. fst p = imageUrl)
        (stored (putFileInfo imageUrl info t2 (putDimensions imageUrl dims t1 w)))) = 1 \<and>
      length (filter (\<lambda>p. fst p = imageUrl)
        (stored (putDimensions imageUrl dims t2 (putFileInfo imageUrl info t1 w)))) = 1)"
proof (intro conjI impI)
  show "map_of (stored (putFileInfo imageUrl info t2 (putDimensions imageUrl dims t1 w))) imageUrl =
     Some \<lparr>dimensions = Some dims, fileInfo = Some info, addedDatetime = t2\<rparr>"
    by (simp add: stored_putFileInfo [of imageUrl info t2] stored_putDimensions AList.update_conv')
  show "map_of (stored (putDimensions imageUrl dims t2 (putFileInfo imageUrl info t1 w))) imageUrl =
     Some \<lparr>dimensions = Some dims, fileInfo = Some info, addedDatetime = t2\<rparr>"
    by (simp add: stored_putDimensions [of imageUrl dims t2] stored_putFileInfo AList.update_conv')
  show "map_of (stored (putDimensions imageUrl dims t1 w)) imageUrl =
     Some \<lparr>dimensions = Some dims,
           fileInfo = Option.bind (map_of (stored w) imageUrl) fileInfo, addedDatetime = t1\<rparr>"
    by (simp add: stored_putDimensions AList.update_conv')
  show "map_of (stored (putFileInfo imageUrl info t1 w)) imageUrl =
     Some \<lparr>dimensions = Option.bind (map_of (stored w) imageUrl) dimensions,
           fileInfo = Some info, addedDatetime = t1\<rparr>"
    by (simp add: stored_putFileInfo AList.update_conv')
next
  assume wf: "wf_store (stored w)"
  then have "wf_store (stored (putDimensions imageUrl dims t1 w))"
    by (simp add: stored_putDimensions wf_store_update_evict)
  then show "length (filter (\<lambda>p. fst p = imageUrl)
        (stored (putFileInfo imageUrl info t2 (putDimensions imageUrl dims t1 w)))) = 1"
    by (simp add: stored_putFileInfo [of imageUrl info t2] count_key_update_evict)
  from wf have "wf_store (stored (putFileInfo imageUrl info t1 w))"
    by (simp add: stored_putFileInfo wf_store_update_evict)
  then show "length (filter (\<lambda>p. fst p = imageUrl)
        (stored (putDimensions imageUrl dims t2 (putFileInfo imageUrl info t1 w)))) = 1"
    by (simp add: stored_putDimensions [of imageUrl dims t2] count_key_update_evict)
qed

theorem putDimensions_putFileInfo_keep_both_witness:
  "wf_store (stored example_world) \<and>
   map_of (stored (putFileInfo (example_key CHR ''b'') example_fileInfo 2001
       (putDimensions (example_key CHR ''b'') example_dimensions 2000 example_world)))
     (example_key CHR ''b'') =
     Some \<lparr>dimensions = Some example_dimensions, fileInfo = Some example_fileInfo,
           addedDatetime = 2001\<rparr> \<and>
   map_of (stored (putDimensions (example_key CHR ''b'') example_dimensions 2001
       (putFileInfo (example_key CHR ''b'') example_fileInfo 2000 example_world)))
     (example_key CHR ''b'') =
     Some \<lparr>dimensions = Some example_dimensions, fileInfo = Some example_fileInfo,
           addedDatetime = 2001\<rparr> \<and>
   length (filter (\<lambda>p. fst p = example_key CHR ''b'')
     (stored (putFileInfo (example_key CHR ''b'') example_fileInfo 2001
       (putDimensions (example_key CHR ''b'') example_dimensions 2000 example_world)))) = 1 \<and>
   length (filter (\<lambda>p. fst p = example_key CHR ''b'')
     (stored (putDimensions (example_key CHR ''b'') example_dimensions 2001
       (putFileInfo (example_key CHR ''b'') example_fileInfo 2000 example_world)))) = 1"
proof -
  have wf: "wf_store (stored example_world)"
    by code_simp
  from putDimensions_putFileInfo_keep_both [of "example_key CHR ''b''" example_fileInfo 2001
      example_dimensions 2000 example_world] wf
  show ?thesis by simp
qed

subsection \<open>The time stamp of an entry\<close>

text \<open>
  C9. After any run of cache operations, an entry stored for a key carries the time of
  the last write to that key in the run (\<^verbatim>\<open>putInfo\<close>, or \<^verbatim>\<open>putDimensions\<close> and
  \<^verbatim>\<open>putFileInfo\<close>, which write through it); if the run has no write to the key, the
  entry is the one stored before the run, with the time stamp it had. And every write to
  a key, whether the key had an entry or not, leaves an entry with the time of that
  write.
\<close>

theorem addedDatetime_is_last_write:
  "(map_of (stored (run ops w)) k = Some e \<longrightarrow>
      (case last_write k ops of
         Some t \<Rightarrow> addedDatetime e = t
       | None \<Rightarrow> map_of (stored w) k = Some e)) \<and>
   (writes_to operation k \<longrightarrow>
      (\<exists>e'. map_of (stored (perform (operation, now) w)) k = Some e' \<and> addedDatetime e' = now))"
proof
  show "map_of (stored (run ops w)) k = Some e \<longrightarrow>
      (case last_write k ops of
         Some t \<Rightarrow> addedDatetime e = t
       | None \<Rightarrow> map_of (stored w) k = Some e)"
    unfolding run_def
  proof (induction ops arbitrary: w)
    case Nil
    show ?case by simp
  next
    case (Cons x ops)
    obtain operation' t where x: "x = (operation', t)" by (cases x)
    show ?case
    proof
      assume "map_of (stored (fold perform (x # ops) w)) k = Some e"
      then have fin: "map_of (stored (fold perform ops (perform x w))) k = Some e"
        by simp
      show "case last_write k (x # ops) of
              Some t \<Rightarrow> addedDatetime e = t
            | None \<Rightarrow> map_of (stored w) k = Some e"
      proof (cases "last_write k ops")
        case (Some t')
        with Cons.IH [of "perform x w"] fin show ?thesis
          by (simp add: x)
      next
        case None
        with Cons.IH [of "perform x w"] fin
        have "map_of (stored (perform (operation', t) w)) k = Some e"
          by (simp add: x)
        from perform_entry [OF this] None show ?thesis
          by (simp add: x split: if_splits)
      qed
    qed
  qed
next
  show "writes_to operation k \<longrightarrow>
      (\<exists>e'. map_of (stored (perform (operation, now) w)) k = Some e' \<and> addedDatetime e' = now)"
    using perform_write by blast
qed

theorem addedDatetime_is_last_write_witness:
  "map_of (stored (run example_ops example_world)) (example_key CHR ''c'') =
     Some \<lparr>dimensions = None, fileInfo = Some example_fileInfo, addedDatetime = 2003\<rparr> \<and>
   last_write (example_key CHR ''c'') example_ops = Some 2003 \<and>
   writes_to (PutFileInfo (example_key CHR ''c'') example_fileInfo) (example_key CHR ''c'') \<and>
   (\<exists>e'. map_of (stored (perform (PutFileInfo (example_key CHR ''c'') example_fileInfo, 2003)
            example_world)) (example_key CHR ''c'') = Some e' \<and>
          addedDatetime e' = 2003)"
proof -
  have 1: "map_of (stored (run example_ops example_world)) (example_key CHR ''c'') =
     Some \<lparr>dimensions = None, fileInfo = Some example_fileInfo, addedDatetime = 2003\<rparr>"
    by code_simp
  have 2: "last_write (example_key CHR ''c'') example_ops = Some 2003"
    by code_simp
  from addedDatetime_is_last_write [where ops = example_ops and w = example_world
      and k = "example_key CHR ''c''"
      and e = "\<lparr>dimensions = None, fileInfo = Some example_fileInfo, addedDatetime = 2003\<rparr>"
      and operation = "PutFileInfo (example_key CHR ''c'') example_fileInfo" and now = 2003]
    1 2
  show ?thesis by simp
qed

subsection \<open>Updating a key at capacity\<close>

text \<open>
  C10. The store holds thirty entries or more and the key written already has an entry.
  Eviction still runs: there is a victim, an entry of the prior store than which none is
  older, and unless the victim is the entry of the key written, its key has no entry
  after the call. With exactly thirty entries before, the store then holds 29.
\<close>

theorem putInfo_present_key_at_capacity:
  assumes "item w = Some (Stringified store)" and "wf_store store"
    and "length store \<ge> MAX_CACHED_IMAGES" and "imageUrl \<in> fst ` set store"
  shows "\<exists>victim \<in> set store.
           (\<forall>p \<in> set store. addedDatetime (snd victim) \<le> addedDatetime (snd p)) \<and>
           (fst victim \<noteq> imageUrl \<longrightarrow>
              map_of (stored (putInfo imageUrl cacheEntry now w)) (fst victim) = None) \<and>
           (fst victim \<noteq> imageUrl \<and> length store = MAX_CACHED_IMAGES \<longrightarrow>
              length (stored (putInfo imageUrl cacheEntry now w)) = 29)"
proof -
  let ?victim = "last (sort_entries store)"
  let ?new = "\<lparr>dimensions = p_dimensions cacheEntry, fileInfo = p_fileInfo cacheEntry,
                addedDatetime = now\<rparr>"
  let ?n = "MAX_CACHED_IMAGES - 1"
  from assms(3) have ne: "store \<noteq> []"
    by (auto simp: MAX_CACHED_IMAGES_def)
  then have vin: "?victim \<in> set store"
    by (rule last_sort_entries_in)
  have oldest: "\<forall>p \<in> set store. addedDatetime (snd ?victim) \<le> addedDatetime (snd p)"
    by (simp add: last_sort_entries_oldest)
  have st: "stored (putInfo imageUrl cacheEntry now w) =
              AList.update imageUrl ?new (evict store)"
    using assms(1) by (simp add: stored_putInfo stored_Stringified)
  have "?n < length (sort_entries store)"
    using assms(3) by (simp add: length_sort_entries MAX_CACHED_IMAGES_def)
  then have "?victim \<in> set (drop ?n (sort_entries store))"
    by (metis drop_eq_Nil last_drop last_in_set not_le)
  then have "fst ?victim \<in> fst ` set (drop ?n (sort_entries store))"
    by (rule imageI)
  with assms(3) have gone: "map_of (evict store) (fst ?victim) = None"
    by (simp add: evict_filter map_of_filter_keys)
  have a: "fst ?victim \<noteq> imageUrl \<longrightarrow>
             map_of (stored (putInfo imageUrl cacheEntry now w)) (fst ?victim) = None"
    by (simp add: st AList.update_conv' gone)
  have b: "length (stored (putInfo imageUrl cacheEntry now w)) = 29"
    if neq: "fst ?victim \<noteq> imageUrl" and full: "length store = MAX_CACHED_IMAGES"
  proof -
    have ev: "evict store = AList.delete (fst ?victim) store"
      using full by (rule evict_exactly_full)
    have d: "distinct (map fst store)"
      using assms(2) by (simp add: wf_store_def)
    from vin have "fst ?victim \<in> fst ` set store"
      by (rule imageI)
    with d have "Suc (length (AList.delete (fst ?victim) store)) = length store"
      by (rule length_delete_distinct)
    with full have l: "length (evict store) = 29"
      by (simp add: ev MAX_CACHED_IMAGES_def)
    from assms(4) obtain e where "(imageUrl, e) \<in> set store"
      by auto
    with neq have "(imageUrl, e) \<in> set (AList.delete (fst ?victim) store)"
      by (auto simp: AList.delete_eq)
    then have "imageUrl \<in> fst ` set (evict store)"
      unfolding ev by (metis fst_conv imageI)
    then have "length (AList.update imageUrl ?new (evict store)) = length (evict store)"
      by (rule length_update_present)
    with l show ?thesis
      by (simp add: st)
  qed
  from vin oldest a b show ?thesis
    by blast
qed

theorem putInfo_present_key_at_capacity_witness:
  "item example_world = Some (Stringified example_store) \<and> wf_store example_store \<and>
   length example_store \<ge> MAX_CACHED_IMAGES \<and>
   example_key CHR ''b'' \<in> fst ` set example_store \<and>
   length (stored (putInfo (example_key CHR ''b'')
      \<lparr>p_dimensions = Some example_dimensions, p_fileInfo = None\<rparr> 2000 example_world)) = 29 \<and>
   map_of (stored (putInfo (example_key CHR ''b'')
      \<lparr>p_dimensions = Some example_dimensions, p_fileInfo = None\<rparr> 2000 example_world))
     (example_key CHR ''a'') = None \<and>
   (\<exists>victim \<in> set example_store.
      (\<forall>p \<in> set example_store. addedDatetime (snd victim) \<le> addedDatetime (snd p)) \<and>
      (fst victim \<noteq> example_key CHR ''b'' \<longrightarrow>
         map_of (stored (putInfo (example_key CHR ''b'')
           \<lparr>p_dimensions = Some example_dimensions, p_fileInfo = None\<rparr> 2000 example_world))
           (fst victim) = None) \<and>
      (fst victim \<noteq> example_key CHR ''b'' \<and> length example_store = MAX_CACHED_IMAGES \<longrightarrow>
         length (stored (putInfo (example_key CHR ''b'')
           \<lparr>p_dimensions = Some example_dimensions, p_fileInfo = None\<rparr> 2000 example_world)) = 29))"
proof -
  have 1: "item example_world = Some (Stringified example_store)"
    by (simp add: example_world_def)
  have 2: "wf_store example_store" by code_simp
  have 3: "length example_store \<ge> MAX_CACHED_IMAGES" by code_simp
  have 4: "example_key CHR ''b'' \<in> fst ` set example_store" by code_simp
  have 5: "length (stored (putInfo (example_key CHR ''b'')
      \<lparr>p_dimensions = Some example_dimensions, p_fileInfo = None\<rparr> 2000 example_world)) = 29"
    by code_simp
  have 6: "map_of (stored (putInfo (example_key CHR ''b'')
      \<lparr>p_dimensions = Some example_dimensions, p_fileInfo = None\<rparr> 2000 example_world))
     (example_key CHR ''a'') = None"
    by code_simp
  from putInfo_present_key_at_capacity [OF 1 2 3 4,
      of "\<lparr>p_dimensions = Some example_dimensions, p_fileInfo = None\<rparr>" 2000]
  show ?thesis using 1 2 3 4 5 6 by simp
qed

section \<open>Properties of the fetcher\<close>

subsection \<open>The retry loop\<close>

lemma onFailedAttempt_permanent: "spec_permanent e \<Longrightarrow> onFailedAttempt e w = Inl e"
  by (cases e) auto

lemma onFailedAttempt_transient:
  "spec_transient e \<Longrightarrow> onFailedAttempt e w = Inr (warn (retrying_warning e) w)"
  by (cases e) auto

lemma pRetry_permanent:
  "input n = Inl e \<Longrightarrow> spec_permanent e \<Longrightarrow> pRetry input r onFailedAttempt n w = (Inl e, n, w)"
  by (simp add: pRetry.simps [of input r] onFailedAttempt_permanent)

lemma pRetry_transient_step:
  "input n = Inl e \<Longrightarrow> spec_transient e \<Longrightarrow>
     pRetry input (Suc r) onFailedAttempt n w =
       pRetry input r onFailedAttempt (Suc n) (warn (retrying_warning e) w)"
  by (simp add: pRetry.simps [of input "Suc r"] onFailedAttempt_transient)


lemma pRetry_success:
  "input n = Inr result \<Longrightarrow> pRetry input r onFailed n w = (Inr result, n, w)"
  by (simp add: pRetry.simps [of input r])

lemma pRetry_transient_prefix:
  assumes "\<forall>i. n \<le> i \<and> i < n + k \<longrightarrow> input i = Inl (errs i) \<and> spec_transient (errs i)"
  shows "pRetry input (r + k) onFailedAttempt n w =
           pRetry input r onFailedAttempt (n + k) (warn_all errs [n ..< n + k] w)"
  using assms
proof (induction k arbitrary: n w)
  case 0
  show ?case by (simp add: warn_all_def)
next
  case (Suc k)
  from Suc.prems have here: "input n = Inl (errs n)" "spec_transient (errs n)"
    by simp_all
  from Suc.prems
  have later: "\<forall>i. Suc n \<le> i \<and> i < Suc n + k \<longrightarrow> input i = Inl (errs i) \<and> spec_transient (errs i)"
    by simp
  have "pRetry input (r + Suc k) onFailedAttempt n w =
        pRetry input (r + k) onFailedAttempt (Suc n) (warn (retrying_warning (errs n)) w)"
    using pRetry_transient_step [of input n "errs n" "r + k" w] here by simp
  also have "\<dots> = pRetry input r onFailedAttempt (Suc n + k)
                     (warn_all errs [Suc n ..< Suc n + k] (warn (retrying_warning (errs n)) w))"
    by (rule Suc.IH [OF later])
  also have "warn_all errs [Suc n ..< Suc n + k] (warn (retrying_warning (errs n)) w) =
             warn_all errs [n ..< n + Suc k] w"
  proof -
    have "[n ..< n + Suc k] = n # [Suc n ..< Suc n + k]"
      using upt_conv_Cons [of n "n + Suc k"] by (simp del: upt_Suc)
    then show ?thesis
      by (simp add: warn_all_def del: upt_Suc)
  qed
  finally show ?case by simp
qed

lemma warnings_warn_all:
  "warnings (warn_all errs attempts w) = warnings w @ map (\<lambda>i. retrying_warning (errs i)) attempts"
  by (induction attempts arbitrary: w) (simp_all add: warn_all_def warn_def)

lemma pRetry_grows:
  "pRetry input r onFailedAttempt n w = (res, n', w') \<Longrightarrow>
     n \<le> n' \<and> (\<exists>more. warnings w' = warnings w @ more)"
proof (induction r arbitrary: n w)
  case 0
  then show ?case
    by (cases "input n"; cases "projl (input n)")
      (auto simp: pRetry.simps [of input 0] warn_def split: if_splits)
next
  case (Suc r)
  show ?case
  proof (cases "input n")
    case (Inr result)
    with Suc.prems show ?thesis by (simp add: pRetry_success)
  next
    case (Inl e)
    show ?thesis
    proof (cases "onFailedAttempt e w")
      case (Inl thrown)
      with \<open>input n = Inl e\<close> Suc.prems show ?thesis
        by (simp add: pRetry.simps [of input "Suc r"])
    next
      case (Inr w1)
      then have w1: "\<exists>more. warnings w1 = warnings w @ more"
        by (cases e) (auto simp: warn_def split: if_splits)
      from Inr \<open>input n = Inl e\<close> Suc.prems
      have "pRetry input r onFailedAttempt (Suc n) w1 = (res, n', w')"
        by (simp add: pRetry.simps [of input "Suc r"])
      from Suc.IH [OF this] w1 show ?thesis
        by auto
    qed
  qed
qed


text \<open>
  C4. Let the first \<open>k - 1\<close> requests fail with failures of the retried class, and the
  \<open>k\<close>-th request (\<open>k\<close> at most 6) fail too. If the \<open>k\<close>-th failure is an HTTP response
  error with a status from 400 to 499 other than 429, \<^verbatim>\<open>loadFileInfo\<close> fails with that
  error after exactly \<open>k\<close> requests: none follows, and no warning is logged for it (the
  warnings are those of the \<open>k - 1\<close> earlier failures). In particular a 404 on the first
  request fails with no retry. If the \<open>k\<close>-th failure is of the retried class (no HTTP
  response error, a status of 500 or more, or 429) and retries remain (\<open>k < 6\<close>), a
  further request is made, and a warning has been logged for each of the \<open>k\<close> failures.
\<close>

theorem loadFileInfo_retry_rule:
  assumes "1 \<le> k" and "k \<le> 6"
    and "\<forall>i. 1 \<le> i \<and> i < k \<longrightarrow> gmxhr i = Inl (errs i) \<and> spec_transient (errs i)"
    and "gmxhr k = Inl (errs k)"
  shows "(spec_permanent (errs k) \<longrightarrow>
            loadFileInfo gmxhr w = (Inl (errs k), k, warn_all errs [1 ..< k] w)) \<and>
         (spec_transient (errs k) \<and> k < 6 \<longrightarrow>
            (\<exists>res n w'. loadFileInfo gmxhr w = (res, n, w') \<and> k < n \<and>
               take k (drop (length (warnings w)) (warnings w')) =
                 map (\<lambda>i. retrying_warning (errs i)) [1 ..< Suc k]))"
proof (intro conjI impI)
  obtain j where k: "k = Suc j" using assms(1) by (cases k) auto
  have prefix: "\<forall>i. 1 \<le> i \<and> i < 1 + j \<longrightarrow> gmxhr i = Inl (errs i) \<and> spec_transient (errs i)"
    using assms(3) by (simp add: k)
  have start: "pRetry gmxhr 5 onFailedAttempt 1 w =
          pRetry gmxhr (5 - j) onFailedAttempt k (warn_all errs [1 ..< k] w)"
    using pRetry_transient_prefix [OF prefix, of "5 - j" w] assms(2) by (simp add: k)
  {
    assume "spec_permanent (errs k)"
    with assms(4) have "pRetry gmxhr (5 - j) onFailedAttempt k (warn_all errs [1 ..< k] w) =
        (Inl (errs k), k, warn_all errs [1 ..< k] w)"
      by (rule pRetry_permanent)
    with start show "loadFileInfo gmxhr w = (Inl (errs k), k, warn_all errs [1 ..< k] w)"
      by (simp add: loadFileInfo_def)
  }
  {
    assume t: "spec_transient (errs k) \<and> k < 6"
    then have "5 - j = Suc (4 - j)" by (auto simp: k)
    with t assms(4)
    have step: "pRetry gmxhr (5 - j) onFailedAttempt k (warn_all errs [1 ..< k] w) =
        pRetry gmxhr (4 - j) onFailedAttempt (Suc k)
          (warn (retrying_warning (errs k)) (warn_all errs [1 ..< k] w))"
      by (simp add: pRetry_transient_step)
    let ?w1 = "warn (retrying_warning (errs k)) (warn_all errs [1 ..< k] w)"
    obtain res n w' where run: "pRetry gmxhr (4 - j) onFailedAttempt (Suc k) ?w1 = (res, n, w')"
      by (cases "pRetry gmxhr (4 - j) onFailedAttempt (Suc k) ?w1")
    from pRetry_grows [OF run] obtain more where n: "Suc k \<le> n"
      and w': "warnings w' = warnings ?w1 @ more"
      by blast
    have w1: "warnings ?w1 = warnings w @ map (\<lambda>i. retrying_warning (errs i)) [1 ..< Suc k]"
      using assms(1) by (simp add: warn_def warnings_warn_all)
    have "length (map (\<lambda>i. retrying_warning (errs i)) [1 ..< Suc k]) = k"
      by simp
    then have tk: "take k (drop (length (warnings w)) (warnings w')) =
          map (\<lambda>i. retrying_warning (errs i)) [1 ..< Suc k]"
      unfolding w' w1 by (simp del: upt_Suc)
    obtain res' where "loadFileInfo gmxhr w = (res', n, w')"
      using start step run by (cases res) (simp_all add: loadFileInfo_def)
    with n tk
    show "\<exists>res n w'. loadFileInfo gmxhr w = (res, n, w') \<and> k < n \<and>
               take k (drop (length (warnings w)) (warnings w')) =
                 map (\<lambda>i. retrying_warning (errs i)) [1 ..< Suc k]"
      by auto
  }
qed

theorem loadFileInfo_retry_rule_witness:
  "spec_permanent not_found \<and>
   loadFileInfo always_404 fresh_world = (Inl not_found, 1, fresh_world) \<and>
   spec_transient rate_limited \<and>
   (\<exists>res n w'. loadFileInfo thrice_429 fresh_world = (res, n, w') \<and> 3 < n \<and>
      take 3 (drop (length (warnings fresh_world)) (warnings w')) =
        map (\<lambda>i. retrying_warning rate_limited) [1 ..< Suc 3]) \<and>
   loadFileInfo thrice_429 fresh_world =
     (Inr \<lparr>fileType = Some ''PNG'', size_fi = Some 12345\<rparr>, 4,
      warn_all (\<lambda>i. rate_limited) [1, 2, 3] fresh_world)"
proof -
  have p: "spec_permanent not_found"
    by (simp add: not_found_def)
  have t: "spec_transient rate_limited"
    by (simp add: rate_limited_def)
  have a: "loadFileInfo always_404 fresh_world = (Inl not_found, 1, fresh_world)"
    using loadFileInfo_retry_rule [where k = 1 and gmxhr = always_404
        and errs = "\<lambda>i. not_found" and w = fresh_world] p
    by (simp add: always_404_def warn_all_def)
  have b: "\<exists>res n w'. loadFileInfo thrice_429 fresh_world = (res, n, w') \<and> 3 < n \<and>
      take 3 (drop (length (warnings fresh_world)) (warnings w')) =
        map (\<lambda>i. retrying_warning rate_limited) [1 ..< Suc 3]"
    using loadFileInfo_retry_rule [where k = 3 and gmxhr = thrice_429
        and errs = "\<lambda>i. rate_limited" and w = fresh_world] t
    by (simp add: thrice_429_def del: upt_Suc)
  have c: "loadFileInfo thrice_429 fresh_world =
     (Inr \<lparr>fileType = Some ''PNG'', size_fi = Some 12345\<rparr>, 4,
      warn_all (\<lambda>i. rate_limited) [1, 2, 3] fresh_world)"
    by code_simp
  from p a t b c show ?thesis
    by blast
qed



subsection \<open>The response headers\<close>



















end
